theory Spec2Isabelle
  imports Main "HOL-Library.Multiset"
begin

section \<open>The DOM as the query functions see it\<close>

text \<open>
  The three kinds of node the functions of \<^verbatim>\<open>querySelectorShadow.js\<close> and of the
  prototype variant can meet: a document, an element, and a shadow root (a
  \<^verbatim>\<open>DocumentFragment\<close>).
\<close>

datatype node_kind = Document | Element | ShadowRoot

text \<open>
  A JavaScript exception raised by the code itself: \<^verbatim>\<open>TypeError\<close> for a member access
  on \<^verbatim>\<open>null\<close> or a call of a method the receiver does not have, \<^verbatim>\<open>RangeError\<close> for
  an exhausted call stack. A function that can throw returns \<open>js_error + 'a\<close>.
\<close>

datatype js_error = TypeError | RangeError

text \<open>
  A selector is a JavaScript string: a sequence of UTF-16 code units. The host's selector
  engine is opaque: \<open>M selector i\<close> is the answer of \<^verbatim>\<open>matches(selector)\<close> on the
  element whose identity is \<open>i\<close>. A selector that the host's parser rejects is outside
  this model.
\<close>

type_synonym selector = "nat list"

type_synonym matcher = "selector \<Rightarrow> nat \<Rightarrow> bool"

definition js :: "string \<Rightarrow> selector" where
  "js s = map of_char s"

definition star :: selector where
  "star = js ''*''"

text \<open>The universal selector matches every element; every other selector is the host's business.\<close>

definition native_matches :: "matcher \<Rightarrow> selector \<Rightarrow> nat \<Rightarrow> bool" where
  "native_matches M selector i = (selector = star \<or> M selector i)"

text \<open>
  The downward view of a node: what \<^verbatim>\<open>shadowRoot\<close> returns (absent for a document, a
  shadow root, an element without a shadow root and an element with a closed one) and
  its \<^verbatim>\<open>children\<close>, the child elements in document order. \<open>nid\<close> is the identity of
  the node: \<^verbatim>\<open>a !== b\<close> compares identities.
\<close>

datatype node =
  Node (kind: node_kind) (nid: nat) (shadowRoot: "node option") (children: "node list")

section \<open>Selector strings: \<^verbatim>\<open>needsShadowSearch\<close> and \<^verbatim>\<open>cleanSelector\<close>\<close>

text \<open>
  \<open>is_space\<close> is the class \<^verbatim>\<open>\\s\<close> of an ECMAScript regular expression, which is also
  what \<^verbatim>\<open>trim()\<close> removes: the white space and line terminator code units.
\<close>

definition is_space :: "nat \<Rightarrow> bool" where
  "is_space c = (c \<in> {9, 10, 11, 12, 13, 32, 160, 5760, 8232, 8233, 8239, 8287, 12288, 65279}
                 \<or> (8192 \<le> c \<and> c \<le> 8202))"

text \<open>\<^verbatim>\<open>String.prototype.includes\<close>: the marker occurs at some position of the string.\<close>

definition starts_with :: "selector \<Rightarrow> selector \<Rightarrow> bool" where
  "starts_with s m = (take (length m) s = m)"

fun js_includes :: "selector \<Rightarrow> selector \<Rightarrow> bool" where
  "js_includes [] m = (m = [])"
| "js_includes (c # cs) m = (starts_with (c # cs) m \<or> js_includes cs m)"

text \<open>
  \<^verbatim>\<open>s.replace(/<marker>\\s*/g, '')\<close>: the matches are found from left to right, each one
  the marker and all the white space after it, and the search goes on after the match.
\<close>

function remove_all :: "selector \<Rightarrow> selector \<Rightarrow> selector" where
  "remove_all m [] = []"
| "remove_all m (c # cs) =
     (if m \<noteq> [] \<and> starts_with (c # cs) m
      then remove_all m (dropWhile is_space (drop (length m) (c # cs)))
      else c # remove_all m cs)"
  by pat_completeness auto
termination
proof (relation "measure (\<lambda>(m, s). length s)")
  show "wf (measure (\<lambda>(m, s). length s))" by simp
next
  fix m :: selector and c :: nat and cs :: selector
  assume "m \<noteq> [] \<and> starts_with (c # cs) m"
  then have "length (drop (length m) (c # cs)) < length (c # cs)"
    by (cases m) simp_all
  moreover have "length (dropWhile is_space (drop (length m) (c # cs))) \<le> length (drop (length m) (c # cs))"
    by (rule length_dropWhile_le)
  ultimately show "((m, dropWhile is_space (drop (length m) (c # cs))), (m, c # cs)) \<in> measure (\<lambda>(m, s). length s)"
    by simp
next
  fix m :: selector and c :: nat and cs :: selector
  show "((m, cs), (m, c # cs)) \<in> measure (\<lambda>(m, s). length s)" by simp
qed

definition trim :: "selector \<Rightarrow> selector" where
  "trim s = rev (dropWhile is_space (rev (dropWhile is_space s)))"

definition shadow_marker :: selector where
  "shadow_marker = js '':shadow''"

definition deep_marker :: selector where
  "deep_marker = js ''>>>''"

text \<open>
  \<^verbatim>\<open>
  function needsShadowSearch(selector) {
      return selector.includes(':shadow') || selector.includes('>>>');
  }
  function cleanSelector(selector) {
      return selector.replace(/:shadow\\s*/g, '').replace(/>>>\\s*/g, '').trim();
  }
  \<close>
\<close>

definition needsShadowSearch :: "selector \<Rightarrow> bool" where
  "needsShadowSearch selector = (js_includes selector shadow_marker \<or> js_includes selector deep_marker)"

definition cleanSelector :: "selector \<Rightarrow> selector" where
  "cleanSelector selector = trim (remove_all deep_marker (remove_all shadow_marker selector))"

subsection \<open>Cleaning shortens a selector that holds a marker\<close>

lemma length_remove_all_le: "length (remove_all m s) \<le> length s"
proof (induction m s rule: remove_all.induct)
  case (1 m)
  then show ?case by simp
next
  case (2 m c cs)
  show ?case
  proof (cases "m \<noteq> [] \<and> starts_with (c # cs) m")
    case True
    have "length (dropWhile is_space (drop (length m) (c # cs))) \<le> length (drop (length m) (c # cs))"
      by (rule length_dropWhile_le)
    also have "\<dots> \<le> length (c # cs)" by simp
    finally show ?thesis using 2(1) [OF True] True by simp
  next
    case False
    with 2(2) show ?thesis by auto
  qed
qed

lemma remove_all_absent: "\<not> js_includes s m \<Longrightarrow> remove_all m s = s"
  by (induction s) auto

lemma length_remove_all_less:
  "m \<noteq> [] \<Longrightarrow> js_includes s m \<Longrightarrow> length (remove_all m s) < length s"
proof (induction m s rule: remove_all.induct)
  case (1 m)
  then show ?case by simp
next
  case (2 m c cs)
  show ?case
  proof (cases "starts_with (c # cs) m")
    case True
    have "length (remove_all m (dropWhile is_space (drop (length m) (c # cs))))
        \<le> length (dropWhile is_space (drop (length m) (c # cs)))"
      by (rule length_remove_all_le)
    also have "\<dots> \<le> length (drop (length m) (c # cs))"
      by (rule length_dropWhile_le)
    also have "\<dots> < length (c # cs)"
      using \<open>m \<noteq> []\<close> by (cases m) simp_all
    finally show ?thesis using True \<open>m \<noteq> []\<close> by simp
  next
    case False
    with 2 show ?thesis by auto
  qed
qed

lemma length_trim_le: "length (trim s) \<le> length s"
proof -
  have "length (trim s) \<le> length (rev (dropWhile is_space s))"
    unfolding trim_def length_rev [of "dropWhile is_space (rev (dropWhile is_space s))"]
    by (rule length_dropWhile_le)
  also have "\<dots> \<le> length s"
    unfolding length_rev by (rule length_dropWhile_le)
  finally show ?thesis .
qed

lemma shadow_marker_nonempty: "shadow_marker \<noteq> []"
  by (simp add: shadow_marker_def js_def)

lemma deep_marker_nonempty: "deep_marker \<noteq> []"
  by (simp add: deep_marker_def js_def)

lemma length_cleanSelector_less:
  assumes "needsShadowSearch selector"
  shows "length (cleanSelector selector) < length selector"
proof -
  have "length (remove_all deep_marker (remove_all shadow_marker selector)) < length selector"
  proof (cases "js_includes selector shadow_marker")
    case True
    have "length (remove_all deep_marker (remove_all shadow_marker selector))
        \<le> length (remove_all shadow_marker selector)"
      by (rule length_remove_all_le)
    also have "\<dots> < length selector"
      using shadow_marker_nonempty True by (rule length_remove_all_less)
    finally show ?thesis .
  next
    case False
    with assms have "js_includes selector deep_marker"
      by (simp add: needsShadowSearch_def)
    with False show ?thesis
      by (simp add: remove_all_absent length_remove_all_less deep_marker_nonempty)
  qed
  with length_trim_le [of "remove_all deep_marker (remove_all shadow_marker selector)"]
  show ?thesis by (simp add: cleanSelector_def)
qed

section \<open>The host's native queries\<close>

text \<open>
  Only an element has the method \<^verbatim>\<open>matches\<close>; on a document or a shadow root the
  property is \<^verbatim>\<open>undefined\<close>, and calling it throws \<^verbatim>\<open>TypeError\<close>.
\<close>

definition has_matches :: "node \<Rightarrow> bool" where
  "has_matches n = (kind n = Element)"

definition call_matches :: "matcher \<Rightarrow> node \<Rightarrow> selector \<Rightarrow> js_error + bool" where
  "call_matches M n selector =
     (if has_matches n then Inr (native_matches M selector (nid n)) else Inl TypeError)"

text \<open>
  The native \<^verbatim>\<open>querySelectorAll\<close> and \<^verbatim>\<open>querySelector\<close> of a document, an element or a
  shadow root: the matching elements among the descendants of the receiver in its own
  tree, in document order. They never enter a shadow root.
\<close>

fun descendants :: "node \<Rightarrow> node list" where
  "descendants (Node k i sr cs) = concat (map (\<lambda>c. c # descendants c) cs)"

definition native_querySelectorAll :: "matcher \<Rightarrow> selector \<Rightarrow> node \<Rightarrow> node list" where
  "native_querySelectorAll M selector root =
     filter (\<lambda>e. has_matches e \<and> native_matches M selector (nid e)) (descendants root)"

definition native_querySelector :: "matcher \<Rightarrow> selector \<Rightarrow> node \<Rightarrow> node option" where
  "native_querySelector M selector root =
     find (\<lambda>e. has_matches e \<and> native_matches M selector (nid e)) (descendants root)"

section \<open>The queue variant: \<^verbatim>\<open>querySelectorAllShadowOptimized\<close>\<close>

text \<open>
  The function is the same in \<^verbatim>\<open>querySelectorShadow.js\<close> and in the prototype variant
  (there as a method whose \<^verbatim>\<open>this\<close> is not used). It calls nothing that either file
  overrides.
  \<^verbatim>\<open>
  function querySelectorAllShadowOptimized(selector, root = document) {
      const results = [];
      const pending = [root];
      while (pending.length > 0) {
          const current = pending.shift();
          if (current !== root && current.matches && current.matches(selector)) {
              results.push(current);
          }
          if (current.shadowRoot) { pending.push(current.shadowRoot); }
          if (current.children) { pending.push(...current.children); }
      }
      return results;
  }
  \<close>
  \<^verbatim>\<open>children\<close> is a collection, truthy also when it is empty. \<open>frontier_size\<close> is the
  measure of the loop: what \<open>enqueued\<close> adds for a node is smaller than the node.
\<close>

definition frontier_size :: "node list \<Rightarrow> nat" where
  "frontier_size pending = sum_list (map size pending)"

definition enqueued :: "node \<Rightarrow> node list" where
  "enqueued current = (case shadowRoot current of None \<Rightarrow> [] | Some sr \<Rightarrow> [sr]) @ children current"

lemma frontier_size_enqueued: "frontier_size (enqueued current) < size current"
  by (cases current) (simp add: frontier_size_def enqueued_def size_list_conv_sum_list split: option.splits)

lemma frontier_size_append: "frontier_size (xs @ ys) = frontier_size xs + frontier_size ys"
  by (simp add: frontier_size_def)

function qsaso_loop ::
  "matcher \<Rightarrow> selector \<Rightarrow> node \<Rightarrow> node list \<Rightarrow> node list \<Rightarrow> js_error + node list" where
  "qsaso_loop M selector root results [] = Inr results"
| "qsaso_loop M selector root results (current # pending) =
     (case (if nid current \<noteq> nid root
            then (if has_matches current then call_matches M current selector else Inr False)
            else Inr False) of
        Inl err \<Rightarrow> Inl err
      | Inr hit \<Rightarrow>
          qsaso_loop M selector root (if hit then results @ [current] else results)
            ((pending @ (case shadowRoot current of None \<Rightarrow> [] | Some sr \<Rightarrow> [sr]))
               @ children current))"
  by pat_completeness auto
termination
proof (relation "measure (\<lambda>(M, selector, root, results, pending). frontier_size pending)")
  show "wf (measure (\<lambda>(M :: matcher, selector :: selector, root :: node, results :: node list, pending). frontier_size pending))"
    by simp
next
  fix M :: matcher and selector :: selector and root :: node and results :: "node list"
    and current pending x2
  have "frontier_size ((pending @ (case shadowRoot current of None \<Rightarrow> [] | Some sr \<Rightarrow> [sr])) @ children current)
      = frontier_size pending + frontier_size (enqueued current)"
    by (simp add: frontier_size_append enqueued_def)
  also have "\<dots> < frontier_size (current # pending)"
    using frontier_size_enqueued [of current] by (simp add: frontier_size_def)
  finally show "((M, selector, root, if x2 then results @ [current] else results,
        (pending @ (case shadowRoot current of None \<Rightarrow> [] | Some sr \<Rightarrow> [sr])) @ children current),
       (M, selector, root, results, current # pending))
      \<in> measure (\<lambda>(M, selector, root, results, pending). frontier_size pending)"
    by simp
qed

definition querySelectorAllShadowOptimized :: "matcher \<Rightarrow> selector \<Rightarrow> node \<Rightarrow> js_error + node list" where
  "querySelectorAllShadowOptimized M selector root = qsaso_loop M selector root [] [root]"

section \<open>The marker-gated overrides and the recursive variants\<close>

text \<open>
  The file ends with a function that runs when the script is loaded. It keeps the native
  methods and replaces \<^verbatim>\<open>querySelector\<close> and \<^verbatim>\<open>querySelectorAll\<close> on
  \<^verbatim>\<open>Element.prototype\<close> and \<^verbatim>\<open>Document.prototype\<close>:
  \<^verbatim>\<open>
  const originalQuerySelector = Element.prototype.querySelector;
  const originalQuerySelectorAll = Element.prototype.querySelectorAll;
  const originalDocQuerySelector = Document.prototype.querySelector;
  const originalDocQuerySelectorAll = Document.prototype.querySelectorAll;
  Element.prototype.querySelector = function(selector) {
      if (needsShadowSearch(selector)) {
          return querySelectorShadow(cleanSelector(selector), this);
      }
      return originalQuerySelector.call(this, selector);
  };
  Element.prototype.querySelectorAll = function(selector) {
      if (needsShadowSearch(selector)) {
          return querySelectorAllShadowOptimized(cleanSelector(selector), this);
      }
      return originalQuerySelectorAll.call(this, selector);
  };
  \<close>
  and the same two on \<^verbatim>\<open>Document.prototype\<close>. A shadow root is a
  \<^verbatim>\<open>DocumentFragment\<close>, whose methods stay the native ones.
\<close>

definition originalQuerySelector :: "matcher \<Rightarrow> selector \<Rightarrow> node \<Rightarrow> node option" where
  "originalQuerySelector = native_querySelector"

definition originalQuerySelectorAll :: "matcher \<Rightarrow> selector \<Rightarrow> node \<Rightarrow> node list" where
  "originalQuerySelectorAll = native_querySelectorAll"

definition originalDocQuerySelector :: "matcher \<Rightarrow> selector \<Rightarrow> node \<Rightarrow> node option" where
  "originalDocQuerySelector = native_querySelector"

definition originalDocQuerySelectorAll :: "matcher \<Rightarrow> selector \<Rightarrow> node \<Rightarrow> node list" where
  "originalDocQuerySelectorAll = native_querySelectorAll"

definition Element_querySelectorAll :: "matcher \<Rightarrow> selector \<Rightarrow> node \<Rightarrow> js_error + node list" where
  "Element_querySelectorAll M selector this =
     (if needsShadowSearch selector
      then querySelectorAllShadowOptimized M (cleanSelector selector) this
      else Inr (originalQuerySelectorAll M selector this))"

definition Document_querySelectorAll :: "matcher \<Rightarrow> selector \<Rightarrow> node \<Rightarrow> js_error + node list" where
  "Document_querySelectorAll M selector this =
     (if needsShadowSearch selector
      then querySelectorAllShadowOptimized M (cleanSelector selector) this
      else Inr (originalDocQuerySelectorAll M selector this))"

text \<open>
  \<^verbatim>\<open>root.querySelectorAll(selector)\<close> once the script is loaded: the method of the
  receiver's prototype.
\<close>

definition call_querySelectorAll :: "matcher \<Rightarrow> selector \<Rightarrow> node \<Rightarrow> js_error + node list" where
  "call_querySelectorAll M selector root =
     (case kind root of
        Document \<Rightarrow> Document_querySelectorAll M selector root
      | Element \<Rightarrow> Element_querySelectorAll M selector root
      | ShadowRoot \<Rightarrow> Inr (native_querySelectorAll M selector root))"

text \<open>What the termination proofs need: the shadow root of a descendant is smaller than the root.\<close>

lemma size_descendants: "x \<in> set (descendants root) \<Longrightarrow> size x < size root"
proof (induction root arbitrary: x rule: descendants.induct)
  case (1 k i sr cs)
  from "1.prems" obtain c where c: "c \<in> set cs" and x: "x = c \<or> x \<in> set (descendants c)"
    by auto
  from c have "size c \<le> sum_list (map size cs)"
    by (simp add: member_le_sum_list)
  then have "size c < size (Node k i sr cs)"
    by (simp add: size_list_conv_sum_list)
  moreover have "size x \<le> size c"
    using x "1.IH" [OF c] by (auto simp: less_imp_le)
  ultimately show ?case by simp
qed

lemma size_shadowRoot: "shadowRoot x = Some sr \<Longrightarrow> size sr < size x"
  by (cases x) simp

lemma star_no_marker: "\<not> needsShadowSearch star"
  by (simp add: needsShadowSearch_def star_def js_def shadow_marker_def deep_marker_def starts_with_def)

lemma call_querySelectorAll_star:
  "call_querySelectorAll M star root = Inr (native_querySelectorAll M star root)"
  by (simp add: call_querySelectorAll_def Element_querySelectorAll_def Document_querySelectorAll_def
      originalQuerySelectorAll_def originalDocQuerySelectorAll_def star_no_marker
      split: node_kind.splits)

lemma size_allElements:
  assumes "call_querySelectorAll M star root = Inr allElements" and "el \<in> set allElements"
    and "shadowRoot el = Some sr"
  shows "size sr < size root"
proof -
  from assms(1,2) have "el \<in> set (descendants root)"
    by (auto simp: call_querySelectorAll_star native_querySelectorAll_def)
  then have "size el < size root" by (rule size_descendants)
  with size_shadowRoot [OF assms(3)] show ?thesis by simp
qed

text \<open>
  A \<^verbatim>\<open>for\<close> loop that returns at the first iteration which finds an element, or throws
  at the first one that throws: the iterations are given as the list of their outcomes.
\<close>

fun first_found :: "(js_error + 'a option) list \<Rightarrow> js_error + 'a option" where
  "first_found [] = Inr None"
| "first_found (r # rs) =
     (case r of
        Inl err \<Rightarrow> Inl err
      | Inr (Some element) \<Rightarrow> Inr (Some element)
      | Inr None \<Rightarrow> first_found rs)"

text \<open>
  \<^verbatim>\<open>
  function querySelectorShadow(selector, root = document) {
      let element = root.querySelector(selector);
      if (element) return element;
      const allElements = root.querySelectorAll('*');
      for (const el of allElements) {
          if (el.shadowRoot) {
              element = querySelectorShadow(selector, el.shadowRoot);
              if (element) return element;
          }
      }
      return null;
  }
  \<close>
  \<^verbatim>\<open>root.querySelector\<close> is the method of the receiver's prototype: the replaced one
  for a document or an element, which calls \<^verbatim>\<open>querySelectorShadow\<close> again when the
  selector holds a marker, and the native one for a shadow root. The three functions are
  therefore defined together. They terminate because \<^verbatim>\<open>cleanSelector\<close> shortens a
  selector that holds a marker, and a shadow root is smaller than the tree around its host.
\<close>

function querySelectorShadow :: "matcher \<Rightarrow> selector \<Rightarrow> node \<Rightarrow> js_error + node option"
  and Element_querySelector :: "matcher \<Rightarrow> selector \<Rightarrow> node \<Rightarrow> js_error + node option"
  and Document_querySelector :: "matcher \<Rightarrow> selector \<Rightarrow> node \<Rightarrow> js_error + node option"
where
  "querySelectorShadow M selector root =
     (case (case kind root of
              Document \<Rightarrow> Document_querySelector M selector root
            | Element \<Rightarrow> Element_querySelector M selector root
            | ShadowRoot \<Rightarrow> Inr (native_querySelector M selector root)) of
        Inl err \<Rightarrow> Inl err
      | Inr (Some element) \<Rightarrow> Inr (Some element)
      | Inr None \<Rightarrow>
          (case call_querySelectorAll M star root of
             Inl err \<Rightarrow> Inl err
           | Inr allElements \<Rightarrow>
               first_found
                 (map (\<lambda>el. case shadowRoot el of
                              None \<Rightarrow> Inr None
                            | Some sr \<Rightarrow> querySelectorShadow M selector sr)
                    allElements)))"
| "Element_querySelector M selector this =
     (if needsShadowSearch selector
      then querySelectorShadow M (cleanSelector selector) this
      else Inr (originalQuerySelector M selector this))"
| "Document_querySelector M selector this =
     (if needsShadowSearch selector
      then querySelectorShadow M (cleanSelector selector) this
      else Inr (originalDocQuerySelector M selector this))"
  by pat_completeness auto
termination
proof (relation "inv_image (less_than <*lex*> less_than)
      (\<lambda>x. case x of
          Inl (M, selector, root) \<Rightarrow> (length selector, 2 * size root + 1)
        | Inr (Inl (M, selector, this)) \<Rightarrow> (length selector, 2 * size this)
        | Inr (Inr (M, selector, this)) \<Rightarrow> (length selector, 2 * size this))",
    goal_cases)
  case 1
  show ?case by (intro wf_inv_image wf_lex_prod wf_less_than)
next
  case 2
  show ?case by simp
next
  case 3
  show ?case by simp
next
  case 4
  then show ?case by (auto dest: size_allElements)
next
  case 5
  then show ?case by (simp add: length_cleanSelector_less)
next
  case 6
  then show ?case by (simp add: length_cleanSelector_less)
qed

declare querySelectorShadow.simps [simp del]

text \<open>
  \<^verbatim>\<open>
  function querySelectorAllShadow(selector, root = document) {
      const results = [];
      results.push(...root.querySelectorAll(selector));
      const allElements = root.querySelectorAll('*');
      for (const el of allElements) {
          if (el.shadowRoot) {
              results.push(...querySelectorAllShadow(selector, el.shadowRoot));
          }
      }
      return results;
  }
  \<close>
  \<open>push_all\<close> is the loop: it appends what each iteration returns, or throws at the first
  one that throws.
\<close>

fun push_all :: "'a list \<Rightarrow> (js_error + 'a list) list \<Rightarrow> js_error + 'a list" where
  "push_all results [] = Inr results"
| "push_all results (r # rs) =
     (case r of Inl err \<Rightarrow> Inl err | Inr more \<Rightarrow> push_all (results @ more) rs)"

function querySelectorAllShadow :: "matcher \<Rightarrow> selector \<Rightarrow> node \<Rightarrow> js_error + node list" where
  "querySelectorAllShadow M selector root =
     (case call_querySelectorAll M selector root of
        Inl err \<Rightarrow> Inl err
      | Inr found \<Rightarrow>
          (case call_querySelectorAll M star root of
             Inl err \<Rightarrow> Inl err
           | Inr allElements \<Rightarrow>
               push_all found
                 (map (\<lambda>el. case shadowRoot el of
                              None \<Rightarrow> Inr []
                            | Some sr \<Rightarrow> querySelectorAllShadow M selector sr)
                    allElements)))"
  by pat_completeness auto
termination
proof (relation "measure (\<lambda>(M, selector, root). size root)", goal_cases)
  case 1
  show ?case by simp
next
  case 2
  then show ?case by (auto dest: size_allElements)
qed

declare querySelectorAllShadow.simps [simp del]

section \<open>The prototype variant with its unconditional overrides\<close>

text \<open>
  The second file defines the same four functions as methods of \<^verbatim>\<open>Document.prototype\<close>,
  copies them to \<^verbatim>\<open>Element.prototype\<close>, and replaces \<^verbatim>\<open>querySelector\<close> and
  \<^verbatim>\<open>querySelectorAll\<close> of both prototypes without any test of the selector:
  \<^verbatim>\<open>
  Document.prototype.querySelector = function (selector) {
      return this.querySelectorShadow(selector, this);
  };
  Element.prototype.querySelector = Document.prototype.querySelector;
  Document.prototype.querySelectorAll = function (selector) {
      return this.querySelectorAllShadowOptimized(selector, this);
  };
  Element.prototype.querySelectorAll = Document.prototype.querySelectorAll;
  \<close>
  Inside the methods, \<^verbatim>\<open>root.querySelector(selector)\<close> and
  \<^verbatim>\<open>root.querySelectorAll(selector)\<close> are therefore the replaced methods when
  \<^verbatim>\<open>root\<close> is a document or an element, and the native ones when it is a shadow root.
  The methods may call each other without end, so each takes \<open>depth\<close>, the number of
  call frames the stack still has room for: a call of one of these methods with no frame
  left throws \<^verbatim>\<open>RangeError\<close>. The receiver \<^verbatim>\<open>this\<close> of
  \<^verbatim>\<open>querySelectorShadow\<close>, \<^verbatim>\<open>querySelectorAllShadowOptimized\<close> and
  \<^verbatim>\<open>querySelectorAllShadow\<close> only serves to find the method again and is left out.
\<close>

definition proto_querySelectorAllShadowOptimized ::
  "matcher \<Rightarrow> nat \<Rightarrow> selector \<Rightarrow> node \<Rightarrow> js_error + node list" where
  "proto_querySelectorAllShadowOptimized M depth selector root =
     (case depth of
        0 \<Rightarrow> Inl RangeError
      | Suc d \<Rightarrow> querySelectorAllShadowOptimized M selector root)"

definition proto_querySelectorAll ::
  "matcher \<Rightarrow> nat \<Rightarrow> selector \<Rightarrow> node \<Rightarrow> js_error + node list" where
  "proto_querySelectorAll M depth selector this =
     (case depth of
        0 \<Rightarrow> Inl RangeError
      | Suc d \<Rightarrow> proto_querySelectorAllShadowOptimized M d selector this)"

definition proto_call_querySelectorAll ::
  "matcher \<Rightarrow> nat \<Rightarrow> selector \<Rightarrow> node \<Rightarrow> js_error + node list" where
  "proto_call_querySelectorAll M depth selector root =
     (case kind root of
        Document \<Rightarrow> proto_querySelectorAll M depth selector root
      | Element \<Rightarrow> proto_querySelectorAll M depth selector root
      | ShadowRoot \<Rightarrow> Inr (native_querySelectorAll M selector root))"

text \<open>
  \<^verbatim>\<open>
  Document.prototype.querySelectorShadow = function (selector, root = document) {
      let element = root.querySelector(selector);
      if (element) return element;
      const allElements = root.querySelectorAll('*');
      for (const el of allElements) {
          if (el.shadowRoot) {
              element = this.querySelectorShadow(selector, el.shadowRoot);
              if (element) return element;
          }
      }
      return null;
  }
  \<close>
\<close>

fun proto_querySelectorShadow :: "matcher \<Rightarrow> nat \<Rightarrow> selector \<Rightarrow> node \<Rightarrow> js_error + node option"
  and proto_querySelector :: "matcher \<Rightarrow> nat \<Rightarrow> selector \<Rightarrow> node \<Rightarrow> js_error + node option"
where
  "proto_querySelectorShadow M 0 selector root = Inl RangeError"
| "proto_querySelectorShadow M (Suc depth) selector root =
     (case (case kind root of
              Document \<Rightarrow> proto_querySelector M depth selector root
            | Element \<Rightarrow> proto_querySelector M depth selector root
            | ShadowRoot \<Rightarrow> Inr (native_querySelector M selector root)) of
        Inl err \<Rightarrow> Inl err
      | Inr (Some element) \<Rightarrow> Inr (Some element)
      | Inr None \<Rightarrow>
          (case proto_call_querySelectorAll M depth star root of
             Inl err \<Rightarrow> Inl err
           | Inr allElements \<Rightarrow>
               first_found
                 (map (\<lambda>el. case shadowRoot el of
                              None \<Rightarrow> Inr None
                            | Some sr \<Rightarrow> proto_querySelectorShadow M depth selector sr)
                    allElements)))"
| "proto_querySelector M 0 selector this = Inl RangeError"
| "proto_querySelector M (Suc depth) selector this = proto_querySelectorShadow M depth selector this"

text \<open>
  \<^verbatim>\<open>
  Document.prototype.querySelectorAllShadow = function (selector, root = document) {
      const results = [];
      results.push(...root.querySelectorAll(selector));
      const allElements = root.querySelectorAll('*');
      for (const el of allElements) {
          if (el.shadowRoot) {
              results.push(...this.querySelectorAllShadow(selector, el.shadowRoot));
          }
      }
      return results;
  }
  \<close>
\<close>

fun proto_querySelectorAllShadow :: "matcher \<Rightarrow> nat \<Rightarrow> selector \<Rightarrow> node \<Rightarrow> js_error + node list" where
  "proto_querySelectorAllShadow M 0 selector root = Inl RangeError"
| "proto_querySelectorAllShadow M (Suc depth) selector root =
     (case proto_call_querySelectorAll M depth selector root of
        Inl err \<Rightarrow> Inl err
      | Inr found \<Rightarrow>
          (case proto_call_querySelectorAll M depth star root of
             Inl err \<Rightarrow> Inl err
           | Inr allElements \<Rightarrow>
               push_all found
                 (map (\<lambda>el. case shadowRoot el of
                              None \<Rightarrow> Inr []
                            | Some sr \<Rightarrow> proto_querySelectorAllShadow M depth selector sr)
                    allElements)))"

section \<open>The upward view: \<^verbatim>\<open>closestShadow\<close>\<close>

text \<open>
  \<^verbatim>\<open>closestShadow\<close> only looks upward, through \<^verbatim>\<open>parentElement\<close>, \<^verbatim>\<open>getRootNode()\<close>
  and \<^verbatim>\<open>host\<close>. A node is given here with its chain of ancestors: \<open>up_parent\<close> is
  \<^verbatim>\<open>parentNode\<close> (absent for a document, a shadow root and a detached element),
  \<open>up_host\<close> is the \<^verbatim>\<open>host\<close> of a shadow root.
\<close>

datatype upnode =
  UpNode (up_kind: node_kind) (up_id: nat) (up_parent: "upnode option") (up_host: "upnode option")

definition parentElement :: "upnode \<Rightarrow> upnode option" where
  "parentElement n =
     (case up_parent n of
        None \<Rightarrow> None
      | Some p \<Rightarrow> if up_kind p = Element then Some p else None)"

fun getRootNode :: "upnode \<Rightarrow> upnode" where
  "getRootNode (UpNode k i None h) = UpNode k i None h"
| "getRootNode (UpNode k i (Some p) h) = getRootNode p"

text \<open>A method call on a reference that may be \<^verbatim>\<open>null\<close>: on \<^verbatim>\<open>null\<close> it throws.\<close>

definition call_getRootNode :: "upnode option \<Rightarrow> js_error + upnode" where
  "call_getRootNode r = (case r of None \<Rightarrow> Inl TypeError | Some n \<Rightarrow> Inr (getRootNode n))"

definition up_has_matches :: "upnode \<Rightarrow> bool" where
  "up_has_matches n = (up_kind n = Element)"

text \<open>
  \<^verbatim>\<open>
  function closestShadow(element, selector) {
      while (element) {
          if (element.matches && element.matches(selector)) { return element; }
          element = element.parentElement;
          if (!element && element.getRootNode() instanceof ShadowRoot) {
              element = element.getRootNode().host;
          }
      }
      return null;
  }
  \<close>
  The test of the second \<^verbatim>\<open>if\<close> reads \<^verbatim>\<open>element\<close> after the assignment: its right
  operand is evaluated exactly when \<^verbatim>\<open>element\<close> is \<^verbatim>\<open>null\<close>.
\<close>

function closestShadow :: "matcher \<Rightarrow> upnode option \<Rightarrow> selector \<Rightarrow> js_error + upnode option" where
  "closestShadow M None selector = Inr None"
| "closestShadow M (Some element) selector =
     (if up_has_matches element \<and> native_matches M selector (up_id element)
      then Inr (Some element)
      else if parentElement element = None
        then (case call_getRootNode (parentElement element) of
                Inl err \<Rightarrow> Inl err
              | Inr r \<Rightarrow>
                  if up_kind r = ShadowRoot
                  then (case call_getRootNode (parentElement element) of
                          Inl err \<Rightarrow> Inl err
                        | Inr r' \<Rightarrow> closestShadow M (up_host r') selector)
                  else closestShadow M (parentElement element) selector)
        else closestShadow M (parentElement element) selector)"
  by pat_completeness auto
termination
proof (relation "measure (\<lambda>(M, e, s). case e of None \<Rightarrow> 0 | Some n \<Rightarrow> size n)")
  show "wf (measure (\<lambda>(M, e, s). case e of None \<Rightarrow> 0 | Some n \<Rightarrow> size n))"
    by simp
next
  fix M :: matcher and element and selector :: selector and r r'
  assume "parentElement element = None"
    and "call_getRootNode (parentElement element) = Inr r"
  then show "((M, up_host r', selector), (M, Some element, selector))
      \<in> measure (\<lambda>(M, e, s). case e of None \<Rightarrow> 0 | Some n \<Rightarrow> size n)"
    by (simp add: call_getRootNode_def)
next
  fix M :: matcher and element and selector :: selector and r
  assume "parentElement element = None"
    and "call_getRootNode (parentElement element) = Inr r"
  then show "((M, parentElement element, selector), (M, Some element, selector))
      \<in> measure (\<lambda>(M, e, s). case e of None \<Rightarrow> 0 | Some n \<Rightarrow> size n)"
    by (simp add: call_getRootNode_def)
next
  fix M :: matcher and element and selector :: selector
  assume "parentElement element \<noteq> None"
  then show "((M, parentElement element, selector), (M, Some element, selector))
      \<in> measure (\<lambda>(M, e, s). case e of None \<Rightarrow> 0 | Some n \<Rightarrow> size n)"
    by (cases element) (auto simp: parentElement_def split: option.splits if_splits)
qed

section \<open>Notions used to state the properties\<close>

text \<open>The order in which the loop takes the nodes from the front of \<^verbatim>\<open>pending\<close>.\<close>

function bfs_order :: "node list \<Rightarrow> node list" where
  "bfs_order [] = []"
| "bfs_order (current # pending) = current # bfs_order (pending @ enqueued current)"
  by pat_completeness auto
termination
proof (relation "measure frontier_size")
  show "wf (measure frontier_size)" by simp
next
  fix current pending
  show "(pending @ enqueued current, current # pending) \<in> measure frontier_size"
    using frontier_size_enqueued [of current]
    by (simp add: frontier_size_append) (simp add: frontier_size_def)
qed

text \<open>The test of the loop: the node is not the root, has \<^verbatim>\<open>matches\<close>, and matches.\<close>

definition hit :: "matcher \<Rightarrow> selector \<Rightarrow> node \<Rightarrow> node \<Rightarrow> bool" where
  "hit M selector root current =
     (nid current \<noteq> nid root \<and> has_matches current \<and> native_matches M selector (nid current))"

text \<open>
  The composed tree below a node, the node included: its shadow tree, then the subtrees
  of its children.
\<close>

fun all_nodes :: "node \<Rightarrow> node list" where
  "all_nodes (Node k i sr cs) =
     Node k i sr cs # (case sr of None \<Rightarrow> [] | Some s \<Rightarrow> all_nodes s) @ concat (map all_nodes cs)"

text \<open>The composed tree strictly below a node.\<close>

definition proper_nodes :: "node \<Rightarrow> node list" where
  "proper_nodes root = concat (map all_nodes (enqueued root))"

text \<open>
  The specification's words for the order of the queue variant: a level-order walk of the
  composed tree. A level is a list of nodes; the next level holds, for each node of the
  level in turn, its shadow root and then its children.
\<close>

function spec_level_order :: "node list \<Rightarrow> node list" where
  "spec_level_order level =
     (if level = [] then [] else level @ spec_level_order (concat (map enqueued level)))"
  by pat_completeness auto
termination
proof (relation "measure frontier_size")
  show "wf (measure frontier_size)" by simp
next
  fix level :: "node list"
  assume "level \<noteq> []"
  have le: "frontier_size (concat (map enqueued xs)) \<le> frontier_size xs" for xs
  proof (induction xs)
    case Nil
    then show ?case by simp
  next
    case (Cons x xs)
    then show ?case
      using frontier_size_enqueued [of x]
      by (simp add: frontier_size_append) (simp add: frontier_size_def)
  qed
  from \<open>level \<noteq> []\<close> obtain x xs where "level = x # xs" by (cases level) auto
  then have "frontier_size (concat (map enqueued level)) < frontier_size level"
    using frontier_size_enqueued [of x] le [of xs]
    by (simp add: frontier_size_append) (simp add: frontier_size_def)
  then show "(concat (map enqueued level), level) \<in> measure frontier_size" by simp
qed

declare spec_level_order.simps [simp del]

text \<open>
  What the recursive variants look at below a root: its descendants in its own tree, and,
  for each descendant element with a shadow root, the same below that shadow root. The
  shadow root of the root itself is not part of it.
\<close>

function searched :: "node \<Rightarrow> node list" where
  "searched root =
     concat (map (\<lambda>el. el # (if has_matches el
                                then (case shadowRoot el of None \<Rightarrow> [] | Some sr \<Rightarrow> searched sr)
                                else []))
               (descendants root))"
  by pat_completeness auto
termination
proof (relation "measure size", goal_cases)
  case 1
  show ?case by simp
next
  case (2 root el sr)
  then show ?case
    using size_descendants [of el root] size_shadowRoot [of el sr] by simp
qed

declare searched.simps [simp del]

text \<open>An element that the host's matcher accepts for the selector.\<close>

definition selected :: "matcher \<Rightarrow> selector \<Rightarrow> node \<Rightarrow> bool" where
  "selected M selector e = (has_matches e \<and> native_matches M selector (nid e))"

text \<open>What the recursive variants look at because of one element: below its shadow root.\<close>

definition hosted :: "node \<Rightarrow> node set" where
  "hosted el = (case shadowRoot el of None \<Rightarrow> {} | Some sr \<Rightarrow> set (searched sr))"

section \<open>Properties of the queue variant\<close>

lemma qsaso_loop_eq:
  "qsaso_loop M selector root results pending
     = Inr (results @ filter (hit M selector root) (bfs_order pending))"
proof (induction M selector root results pending rule: qsaso_loop.induct)
  case (1 M selector root results)
  then show ?case by simp
next
  case (2 M selector root results current pending)
  have test: "(if nid current \<noteq> nid root
            then (if has_matches current then call_matches M current selector else Inr False)
            else Inr False) = Inr (hit M selector root current)"
    by (simp add: hit_def call_matches_def)
  have "qsaso_loop M selector root results (current # pending)
      = qsaso_loop M selector root
          (if hit M selector root current then results @ [current] else results)
          ((pending @ (case shadowRoot current of None \<Rightarrow> [] | Some sr \<Rightarrow> [sr])) @ children current)"
    by (simp only: qsaso_loop.simps test sum.case)
  also have "\<dots> = Inr ((if hit M selector root current then results @ [current] else results)
      @ filter (hit M selector root)
          (bfs_order ((pending @ (case shadowRoot current of None \<Rightarrow> [] | Some sr \<Rightarrow> [sr])) @ children current)))"
    by (rule "2.IH" [OF test])
  also have "\<dots> = Inr (results @ filter (hit M selector root) (bfs_order (current # pending)))"
    by (simp add: enqueued_def)
  finally show ?case .
qed

lemma querySelectorAllShadowOptimized_eq:
  "querySelectorAllShadowOptimized M selector root
     = Inr (filter (hit M selector root) (bfs_order [root]))"
  by (simp add: querySelectorAllShadowOptimized_def qsaso_loop_eq)

lemma qsaso_loop_never_throws: "qsaso_loop M selector root results pending \<noteq> Inl err"
  by (simp add: qsaso_loop_eq)

lemma all_nodes_enqueued:
  "mset (all_nodes n) = {#n#} + mset (concat (map all_nodes (enqueued n)))"
  by (cases n) (simp add: enqueued_def split: option.splits)

lemma mset_concat_append:
  "mset (concat (map f (xs @ ys))) = mset (concat (map f xs)) + mset (concat (map f ys))"
  by simp

lemma mset_bfs_order: "mset (bfs_order pending) = mset (concat (map all_nodes pending))"
proof (induction pending rule: bfs_order.induct)
  case 1
  then show ?case by simp
next
  case (2 current pending)
  have "mset (bfs_order (current # pending)) = {#current#} + mset (bfs_order (pending @ enqueued current))"
    by simp
  also have "\<dots> = {#current#} + mset (concat (map all_nodes (pending @ enqueued current)))"
    by (simp only: 2)
  also have "\<dots> = mset (all_nodes current) + mset (concat (map all_nodes pending))"
    by (simp only: mset_concat_append all_nodes_enqueued [of current]) simp
  finally show ?case by simp
qed

lemma mset_bfs_order_root: "mset (bfs_order [root]) = mset (all_nodes root)"
  by (simp only: mset_bfs_order) simp

lemma set_bfs_order_root: "set (bfs_order [root]) = set (all_nodes root)"
  using mset_bfs_order_root [of root] by (metis set_mset_mset)

lemma bfs_order_levels:
  "bfs_order (xs @ concat (map enqueued ys))
     = xs @ spec_level_order (concat (map enqueued (ys @ xs)))"
proof (induction "frontier_size (xs @ concat (map enqueued ys))" arbitrary: xs ys rule: less_induct)
  case less
  show ?case
  proof (cases xs)
    case (Cons x xs')
    have smaller: "frontier_size (xs' @ concat (map enqueued (ys @ [x])))
        < frontier_size (xs @ concat (map enqueued ys))"
      using frontier_size_enqueued [of x] Cons
      by (simp add: frontier_size_append) (simp add: frontier_size_def)
    have "bfs_order (xs @ concat (map enqueued ys))
        = x # bfs_order (xs' @ concat (map enqueued (ys @ [x])))"
      using Cons by simp
    also have "\<dots> = x # xs' @ spec_level_order (concat (map enqueued ((ys @ [x]) @ xs')))"
      using less [OF smaller] by simp
    finally show ?thesis using Cons by simp
  next
    case Nil
    show ?thesis
    proof (cases "concat (map enqueued ys)")
      case Nil
      then have e1: "concat (map enqueued (ys @ [])) = []" by simp
      show ?thesis
        unfolding \<open>xs = []\<close> e1 Nil
        by (simp add: spec_level_order.simps [of "[]"])
    next
      case (Cons z zs)
      have smaller: "frontier_size (zs @ concat (map enqueued [z]))
          < frontier_size (xs @ concat (map enqueued ys))"
        using frontier_size_enqueued [of z] Cons \<open>xs = []\<close>
        by (simp add: frontier_size_append) (simp add: frontier_size_def)
      have "bfs_order (z # zs) = z # bfs_order (zs @ concat (map enqueued [z]))"
        by simp
      also have "\<dots> = z # zs @ spec_level_order (concat (map enqueued ([z] @ zs)))"
        using less [OF smaller] by simp
      also have "\<dots> = spec_level_order (z # zs)"
        by (simp add: spec_level_order.simps [of "z # zs"])
      finally show ?thesis using Cons \<open>xs = []\<close> by simp
    qed
  qed
qed

lemma bfs_order_eq_level_order: "bfs_order xs = spec_level_order xs"
proof (cases xs)
  case Nil
  then show ?thesis by (simp add: spec_level_order.simps)
next
  case (Cons a list)
  have "bfs_order (xs @ concat (map enqueued [])) = xs @ spec_level_order (concat (map enqueued ([] @ xs)))"
    by (rule bfs_order_levels)
  then show ?thesis using Cons by (simp add: spec_level_order.simps [of "a # list"])
qed

text \<open>
  C8. The queue variant returns its matches in the level order of the composed tree: the
  nodes of the level-order walk from the root (each level holding, node by node, the shadow
  root and then the children of the nodes of the level before), without the root itself,
  without the nodes that have no \<^verbatim>\<open>matches\<close>, and without the elements that do not match.
  Being a function of the matcher, the selector and the tree, the order is deterministic.
\<close>

theorem querySelectorAllShadowOptimized_level_order:
  "querySelectorAllShadowOptimized M selector root
     = Inr (filter (\<lambda>current. nid current \<noteq> nid root \<and> has_matches current
                       \<and> native_matches M selector (nid current))
             (spec_level_order [root]))"
proof -
  have "hit M selector root
      = (\<lambda>current. nid current \<noteq> nid root \<and> has_matches current
           \<and> native_matches M selector (nid current))"
    by (rule ext) (simp add: hit_def)
  then show ?thesis
    by (simp only: querySelectorAllShadowOptimized_eq bfs_order_eq_level_order)
qed

text \<open>
  Level order is not document order: below a host (1) with a shadow button (3) and a light
  child (4), the child comes before the button, although the shadow tree (2) was enqueued
  first.
\<close>

lemma level_order_example:
  "querySelectorAllShadowOptimized (\<lambda>s i. True) (js ''.go'')
     (Node Document 0 None
        [Node Element 1 (Some (Node ShadowRoot 2 None [Node Element 3 None []]))
           [Node Element 4 None []]])
   = Inr [Node Element 1 (Some (Node ShadowRoot 2 None [Node Element 3 None []]))
            [Node Element 4 None []],
          Node Element 4 None [], Node Element 3 None []]"
  by (simp add: querySelectorAllShadowOptimized_def call_matches_def has_matches_def
      native_matches_def)

text \<open>
  C9. The queue variant never throws: a visited node without \<^verbatim>\<open>matches\<close> (a document, a
  shadow root) is never asked whether it matches, it is left out of the result, and the
  walk goes on below it. The result holds exactly the matching elements of the composed
  tree other than the root.
\<close>

theorem querySelectorAllShadowOptimized_skips:
  "\<exists>results. querySelectorAllShadowOptimized M selector root = Inr results
     \<and> list_all has_matches results
     \<and> set results = {current. current \<in> set (all_nodes root) \<and> nid current \<noteq> nid root
                          \<and> has_matches current \<and> native_matches M selector (nid current)}"
proof -
  let ?results = "filter (hit M selector root) (bfs_order [root])"
  have "querySelectorAllShadowOptimized M selector root = Inr ?results"
    by (rule querySelectorAllShadowOptimized_eq)
  moreover have "list_all has_matches ?results"
    by (simp add: list_all_iff hit_def)
  moreover have "set ?results = {current. current \<in> set (all_nodes root) \<and> nid current \<noteq> nid root
                          \<and> has_matches current \<and> native_matches M selector (nid current)}"
    unfolding set_filter set_bfs_order_root by (auto simp: hit_def)
  ultimately show ?thesis by blast
qed

text \<open>
  The queue variant is complete: a matching element anywhere in the composed tree below the
  root, whose identity is not the root's, is in the result.
\<close>

lemma querySelectorAllShadowOptimized_complete:
  assumes "target \<in> set (all_nodes root)" and "nid target \<noteq> nid root"
    and "has_matches target" and "native_matches M selector (nid target)"
  shows "\<exists>results. querySelectorAllShadowOptimized M selector root = Inr results
           \<and> target \<in> set results"
proof -
  have "target \<in> set (filter (hit M selector root) (bfs_order [root]))"
    unfolding set_filter set_bfs_order_root using assms by (simp add: hit_def)
  then show ?thesis
    by (simp only: querySelectorAllShadowOptimized_eq) blast
qed

text \<open>
  In a tree whose nodes have distinct identities the queue variant reports no node twice:
  the loop takes every node of the composed tree from the queue exactly once.
\<close>

lemma querySelectorAllShadowOptimized_no_duplicates:
  assumes "distinct (map nid (all_nodes root))"
  shows "\<exists>results. querySelectorAllShadowOptimized M selector root = Inr results
           \<and> distinct (map nid results)"
proof -
  have "mset (map nid (bfs_order [root])) = mset (map nid (all_nodes root))"
    using mset_bfs_order_root [of root] by (metis mset_map)
  with assms have "distinct (map nid (bfs_order [root]))"
    by (metis mset_eq_imp_distinct_iff)
  then have "distinct (map nid (filter (hit M selector root) (bfs_order [root])))"
    by (rule distinct_map_filter)
  then show ?thesis
    by (simp only: querySelectorAllShadowOptimized_eq) blast
qed

section \<open>Properties of the recursive variants\<close>

lemma all_nodes_proper: "all_nodes n = n # proper_nodes n"
  by (cases n) (simp add: proper_nodes_def enqueued_def split: option.splits)

lemma all_nodes_self: "n \<in> set (all_nodes n)"
  by (simp add: all_nodes_proper)

lemma proper_nodes_child:
  "c \<in> set (children n) \<Longrightarrow> x \<in> set (all_nodes c) \<Longrightarrow> x \<in> set (proper_nodes n)"
  by (auto simp: proper_nodes_def enqueued_def)

lemma proper_nodes_shadow:
  "shadowRoot n = Some sr \<Longrightarrow> x \<in> set (all_nodes sr) \<Longrightarrow> x \<in> set (proper_nodes n)"
  by (auto simp: proper_nodes_def enqueued_def)

lemma size_proper_nodes: "x \<in> set (proper_nodes n) \<Longrightarrow> size x < size n"
proof (induction n arbitrary: x rule: all_nodes.induct)
  case (1 k i sr cs)
  from "1.prems" obtain c where c: "c \<in> set (enqueued (Node k i sr cs))" and x: "x \<in> set (all_nodes c)"
    by (auto simp: proper_nodes_def)
  have le: "size x \<le> size c"
  proof (cases "x = c")
    case True
    then show ?thesis by simp
  next
    case False
    with x have xp: "x \<in> set (proper_nodes c)" by (simp add: all_nodes_proper)
    from c have "sr = Some c \<or> c \<in> set cs"
      by (auto simp: enqueued_def split: option.splits)
    then have "size x < size c"
      using "1.IH" xp by auto
    then show ?thesis by simp
  qed
  have "size c \<le> frontier_size (enqueued (Node k i sr cs))"
    using c by (simp add: frontier_size_def member_le_sum_list)
  with frontier_size_enqueued [of "Node k i sr cs"] le show ?case by simp
qed

lemma all_nodes_trans:
  "y \<in> set (all_nodes root) \<Longrightarrow> x \<in> set (all_nodes y) \<Longrightarrow> x \<in> set (all_nodes root)"
proof (induction root arbitrary: y rule: all_nodes.induct)
  case (1 k i sr cs)
  show ?case
  proof (cases "y = Node k i sr cs")
    case True
    with "1.prems" show ?thesis by simp
  next
    case False
    with "1.prems"(1) have "y \<in> set (proper_nodes (Node k i sr cs))"
      unfolding all_nodes_proper [of "Node k i sr cs"] by simp
    then obtain c where c: "c \<in> set (enqueued (Node k i sr cs))" and y: "y \<in> set (all_nodes c)"
      by (auto simp: proper_nodes_def)
    from c have "sr = Some c \<or> c \<in> set cs"
      by (auto simp: enqueued_def split: option.splits)
    then have "x \<in> set (all_nodes c)"
      using "1.IH" y "1.prems"(2) by auto
    with c have "x \<in> set (proper_nodes (Node k i sr cs))"
      by (auto simp: proper_nodes_def)
    then show ?thesis
      unfolding all_nodes_proper [of "Node k i sr cs"] by simp
  qed
qed

lemma descendants_proper: "x \<in> set (descendants root) \<Longrightarrow> x \<in> set (proper_nodes root)"
proof (induction root arbitrary: x rule: descendants.induct)
  case (1 k i sr cs)
  from "1.prems" obtain c where c: "c \<in> set cs" and x: "x = c \<or> x \<in> set (descendants c)"
    by auto
  from x "1.IH" [OF c] have "x \<in> set (all_nodes c)"
    by (auto simp: all_nodes_proper)
  with c show ?case by (auto intro: proper_nodes_child)
qed

lemma proper_nodes_distinct_id:
  assumes "distinct (map nid (all_nodes root))" and "x \<in> set (proper_nodes root)"
  shows "nid x \<noteq> nid root"
proof -
  from assms(1) have "nid root \<notin> nid ` set (proper_nodes root)"
    by (simp add: all_nodes_proper)
  with assms(2) show ?thesis by (metis imageI)
qed

lemma push_all_subset:
  "list_all (\<lambda>r. \<exists>xs. r = Inr xs \<and> set xs \<subseteq> S) rs \<Longrightarrow> set acc \<subseteq> S \<Longrightarrow>
   \<exists>out. push_all acc rs = Inr out \<and> set out \<subseteq> S"
proof (induction rs arbitrary: acc)
  case Nil
  then show ?case by simp
next
  case (Cons r rs)
  from Cons.prems(1) obtain xs where r: "r = Inr xs" and xs: "set xs \<subseteq> S"
    and rest: "list_all (\<lambda>r. \<exists>xs. r = Inr xs \<and> set xs \<subseteq> S) rs"
    by auto
  from xs Cons.prems(2) have "set (acc @ xs) \<subseteq> S" by simp
  from Cons.IH [OF rest this] r show ?case by simp
qed

lemma call_querySelectorAll_proper:
  "\<exists>found. call_querySelectorAll M selector root = Inr found \<and> set found \<subseteq> set (proper_nodes root)"
proof (cases "kind root \<noteq> ShadowRoot \<and> needsShadowSearch selector")
  case True
  then have "call_querySelectorAll M selector root
      = Inr (filter (hit M (cleanSelector selector) root) (bfs_order [root]))"
    by (simp add: call_querySelectorAll_def Element_querySelectorAll_def Document_querySelectorAll_def
        querySelectorAllShadowOptimized_eq split: node_kind.splits)
  moreover have "set (filter (hit M (cleanSelector selector) root) (bfs_order [root]))
      \<subseteq> set (proper_nodes root)"
    unfolding set_filter set_bfs_order_root by (auto simp: hit_def all_nodes_proper)
  ultimately show ?thesis by blast
next
  case False
  then have "call_querySelectorAll M selector root = Inr (native_querySelectorAll M selector root)"
    by (auto simp: call_querySelectorAll_def Element_querySelectorAll_def Document_querySelectorAll_def
        originalQuerySelectorAll_def originalDocQuerySelectorAll_def split: node_kind.splits)
  moreover have "set (native_querySelectorAll M selector root) \<subseteq> set (proper_nodes root)"
    by (auto simp: native_querySelectorAll_def descendants_proper)
  ultimately show ?thesis by blast
qed

lemma querySelectorAllShadow_proper:
  "\<exists>results. querySelectorAllShadow M selector root = Inr results
     \<and> set results \<subseteq> set (proper_nodes root)"
proof (induction M selector root rule: querySelectorAllShadow.induct)
  case (1 M selector root)
  obtain found where found: "call_querySelectorAll M selector root = Inr found"
    and found_sub: "set found \<subseteq> set (proper_nodes root)"
    using call_querySelectorAll_proper by blast
  let ?allElements = "native_querySelectorAll M star root"
  have all: "call_querySelectorAll M star root = Inr ?allElements"
    by (rule call_querySelectorAll_star)
  let ?parts = "map (\<lambda>el. case shadowRoot el of
                              None \<Rightarrow> Inr []
                            | Some sr \<Rightarrow> querySelectorAllShadow M selector sr) ?allElements"
  have "list_all (\<lambda>r. \<exists>xs. r = Inr xs \<and> set xs \<subseteq> set (proper_nodes root)) ?parts"
    unfolding list_all_iff
  proof
    fix r
    assume "r \<in> set ?parts"
    then obtain el where el: "el \<in> set ?allElements"
      and r: "r = (case shadowRoot el of None \<Rightarrow> Inr [] | Some sr \<Rightarrow> querySelectorAllShadow M selector sr)"
      by auto
    show "\<exists>xs. r = Inr xs \<and> set xs \<subseteq> set (proper_nodes root)"
    proof (cases "shadowRoot el")
      case None
      with r show ?thesis by simp
    next
      case (Some sr)
      from "1.IH" [OF found all el Some] obtain xs
        where xs: "querySelectorAllShadow M selector sr = Inr xs" "set xs \<subseteq> set (proper_nodes sr)"
        by blast
      from el have "el \<in> set (proper_nodes root)"
        by (auto simp: native_querySelectorAll_def descendants_proper)
      then have el_in: "el \<in> set (all_nodes root)" by (simp add: all_nodes_proper)
      have "set xs \<subseteq> set (proper_nodes root)"
      proof
        fix x
        assume "x \<in> set xs"
        with xs(2) have "x \<in> set (all_nodes sr)" by (auto simp: all_nodes_proper)
        with Some have "x \<in> set (proper_nodes el)" by (rule proper_nodes_shadow)
        then have x_el: "x \<in> set (all_nodes el)" by (simp add: all_nodes_proper)
        have "x \<in> set (all_nodes root)" using el_in x_el by (rule all_nodes_trans)
        moreover have "size x < size root"
          using size_proper_nodes [OF \<open>x \<in> set (proper_nodes el)\<close>]
            size_proper_nodes [OF \<open>el \<in> set (proper_nodes root)\<close>] by simp
        ultimately show "x \<in> set (proper_nodes root)"
          by (auto simp: all_nodes_proper)
      qed
      with r Some xs(1) show ?thesis by simp
    qed
  qed
  from push_all_subset [OF this found_sub]
  obtain out where "push_all found ?parts = Inr out" "set out \<subseteq> set (proper_nodes root)"
    by blast
  then show ?case
    by (simp add: querySelectorAllShadow.simps [of M selector root] found all del: push_all.simps)
qed

text \<open>
  C5. Neither variant of \<^verbatim>\<open>findAll\<close> reports the root it was started from, whatever the
  root and the selector match: in a tree whose nodes have distinct identities, no node of
  the result of \<^verbatim>\<open>querySelectorAllShadowOptimized\<close> or of \<^verbatim>\<open>querySelectorAllShadow\<close>
  has the identity of the root.
\<close>

theorem findAll_excludes_root:
  "distinct (map nid (all_nodes root)) \<Longrightarrow>
   (\<exists>results. querySelectorAllShadowOptimized M selector root = Inr results
      \<and> nid root \<notin> nid ` set results) \<and>
   (\<exists>results. querySelectorAllShadow M selector root = Inr results
      \<and> nid root \<notin> nid ` set results)"
proof
  assume wf: "distinct (map nid (all_nodes root))"
  show "\<exists>results. querySelectorAllShadowOptimized M selector root = Inr results
      \<and> nid root \<notin> nid ` set results"
    by (auto simp: querySelectorAllShadowOptimized_eq hit_def)
  obtain results where r: "querySelectorAllShadow M selector root = Inr results"
    and sub: "set results \<subseteq> set (proper_nodes root)"
    using querySelectorAllShadow_proper by blast
  have "nid root \<notin> nid ` set results"
    using sub proper_nodes_distinct_id [OF wf] by force
  with r show "\<exists>results. querySelectorAllShadow M selector root = Inr results
      \<and> nid root \<notin> nid ` set results"
    by blast
qed

theorem findAll_excludes_root_witness:
  "distinct (map nid (all_nodes
     (Node Element 1 (Some (Node ShadowRoot 2 None [Node Element 3 None []])) [Node Element 4 None []]))) \<and>
   (\<exists>results. querySelectorAllShadowOptimized (\<lambda>s i. True) (js ''.go'')
       (Node Element 1 (Some (Node ShadowRoot 2 None [Node Element 3 None []])) [Node Element 4 None []])
         = Inr results \<and> 1 \<notin> nid ` set results) \<and>
   (\<exists>results. querySelectorAllShadow (\<lambda>s i. True) (js ''.go'')
       (Node Element 1 (Some (Node ShadowRoot 2 None [Node Element 3 None []])) [Node Element 4 None []])
         = Inr results \<and> 1 \<notin> nid ` set results)"
  using findAll_excludes_root
    [of "Node Element 1 (Some (Node ShadowRoot 2 None [Node Element 3 None []])) [Node Element 4 None []]"
      "\<lambda>s i. True" "js ''.go''"]
  by simp

lemma call_querySelectorAll_plain:
  "\<not> needsShadowSearch selector \<Longrightarrow>
   call_querySelectorAll M selector root = Inr (native_querySelectorAll M selector root)"
  by (simp add: call_querySelectorAll_def Element_querySelectorAll_def Document_querySelectorAll_def
      originalQuerySelectorAll_def originalDocQuerySelectorAll_def split: node_kind.splits)

text \<open>
  For a selector without a marker both recursive variants are complete over \<open>searched\<close>:
  \<^verbatim>\<open>querySelectorAllShadow\<close> returns exactly the matching elements of it, and
  \<^verbatim>\<open>querySelectorShadow\<close> returns one of them whenever there is one.
\<close>

lemma native_star: "native_querySelectorAll M star root = filter has_matches (descendants root)"
  by (simp add: native_querySelectorAll_def native_matches_def)

lemma set_hosted:
  "set (case shadowRoot el of None \<Rightarrow> [] | Some sr \<Rightarrow> searched sr) = hosted el"
  by (cases "shadowRoot el") (simp_all add: hosted_def)

lemma set_step:
  "set (el # (if has_matches el
              then (case shadowRoot el of None \<Rightarrow> [] | Some sr \<Rightarrow> searched sr)
              else []))
     = insert el (if has_matches el then hosted el else {})"
  by (cases "has_matches el") (simp_all only: if_True if_False list.set set_hosted)

lemma set_searched:
  "set (searched root)
     = set (descendants root) \<union> (\<Union>el \<in> set (filter has_matches (descendants root)). hosted el)"
proof -
  have "set (searched root)
      = (\<Union>el \<in> set (descendants root).
          set (el # (if has_matches el
                     then (case shadowRoot el of None \<Rightarrow> [] | Some sr \<Rightarrow> searched sr)
                     else [])))"
    by (subst searched.simps) (simp only: set_concat set_map image_image)
  also have "\<dots> = (\<Union>el \<in> set (descendants root).
      insert el (if has_matches el then hosted el else {}))"
    by (simp only: set_step)
  also have "\<dots> = set (descendants root)
      \<union> (\<Union>el \<in> set (filter has_matches (descendants root)). hosted el)"
    by (auto split: if_splits)
  finally show ?thesis .
qed

lemma push_all_map:
  assumes "\<forall>x \<in> set xs. \<exists>ys. f x = Inr ys \<and> set ys = g x"
  shows "\<exists>out. push_all acc (map f xs) = Inr out \<and> set out = set acc \<union> (\<Union>x \<in> set xs. g x)"
  using assms
proof (induction xs arbitrary: acc)
  case Nil
  then show ?case by simp
next
  case (Cons x xs)
  from Cons.prems obtain ys where ys: "f x = Inr ys" "set ys = g x" by auto
  from Cons.prems have "\<forall>x \<in> set xs. \<exists>ys. f x = Inr ys \<and> set ys = g x" by simp
  from Cons.IH [OF this, of "acc @ ys"] obtain out
    where "push_all (acc @ ys) (map f xs) = Inr out"
      and "set out = set (acc @ ys) \<union> (\<Union>x \<in> set xs. g x)" by blast
  with ys show ?case by auto
qed

lemma querySelectorAllShadow_searched:
  "\<not> needsShadowSearch selector \<Longrightarrow>
   \<exists>results. querySelectorAllShadow M selector root = Inr results
     \<and> set results = {e \<in> set (searched root). selected M selector e}"
proof (induction M selector root rule: querySelectorAllShadow.induct)
  case (1 M selector root)
  let ?found = "native_querySelectorAll M selector root"
  let ?all = "native_querySelectorAll M star root"
  let ?part = "\<lambda>el. case shadowRoot el of
      None \<Rightarrow> Inr [] | Some sr \<Rightarrow> querySelectorAllShadow M selector sr"
  let ?g = "\<lambda>el. {e \<in> hosted el. selected M selector e}"
  have found: "call_querySelectorAll M selector root = Inr ?found"
    using "1.prems" by (rule call_querySelectorAll_plain)
  have all: "call_querySelectorAll M star root = Inr ?all"
    by (rule call_querySelectorAll_star)
  have parts: "\<forall>el \<in> set ?all. \<exists>xs. ?part el = Inr xs \<and> set xs = ?g el"
  proof
    fix el
    assume el: "el \<in> set ?all"
    show "\<exists>xs. ?part el = Inr xs \<and> set xs = ?g el"
    proof (cases "shadowRoot el")
      case None
      then show ?thesis by (simp add: hosted_def)
    next
      case (Some sr)
      from "1.IH" [OF found all el Some "1.prems"] Some show ?thesis
        by (simp add: hosted_def)
    qed
  qed
  from push_all_map [OF parts, of ?found] obtain out
    where out: "push_all ?found (map ?part ?all) = Inr out"
      and set_out: "set out = set ?found \<union> (\<Union>el \<in> set ?all. ?g el)"
    by blast
  have "querySelectorAllShadow M selector root = Inr out"
    by (simp add: querySelectorAllShadow.simps [of M selector root] found all out)
  moreover have "set out = {e \<in> set (searched root). selected M selector e}"
    unfolding set_out set_searched [of root] native_star
    by (auto simp: native_querySelectorAll_def selected_def)
  ultimately show ?case by blast
qed

lemma first_found_map:
  assumes "\<forall>x \<in> set xs. \<exists>r. f x = Inr r
      \<and> (case r of None \<Rightarrow> \<forall>e \<in> g x. \<not> P e | Some e \<Rightarrow> e \<in> g x \<and> P e)"
  shows "\<exists>r. first_found (map f xs) = Inr r
      \<and> (case r of None \<Rightarrow> \<forall>x \<in> set xs. \<forall>e \<in> g x. \<not> P e
                   | Some e \<Rightarrow> (\<exists>x \<in> set xs. e \<in> g x) \<and> P e)"
  using assms
proof (induction xs)
  case Nil
  then show ?case by simp
next
  case (Cons x xs)
  from Cons.prems obtain r where r: "f x = Inr r"
    "case r of None \<Rightarrow> \<forall>e \<in> g x. \<not> P e | Some e \<Rightarrow> e \<in> g x \<and> P e" by auto
  show ?case
  proof (cases r)
    case None
    from Cons.prems have "\<forall>x \<in> set xs. \<exists>r. f x = Inr r
      \<and> (case r of None \<Rightarrow> \<forall>e \<in> g x. \<not> P e | Some e \<Rightarrow> e \<in> g x \<and> P e)" by simp
    from Cons.IH [OF this] obtain r' where r': "first_found (map f xs) = Inr r'"
      "case r' of None \<Rightarrow> \<forall>x \<in> set xs. \<forall>e \<in> g x. \<not> P e
                   | Some e \<Rightarrow> (\<exists>x \<in> set xs. e \<in> g x) \<and> P e" by blast
    with r None show ?thesis by (cases r') auto
  next
    case (Some e)
    with r show ?thesis by auto
  qed
qed

lemma querySelectorShadow_searched:
  "\<not> needsShadowSearch selector \<Longrightarrow>
   \<exists>r. querySelectorShadow M selector root = Inr r
     \<and> (case r of
           None \<Rightarrow> \<forall>e \<in> set (searched root). \<not> selected M selector e
         | Some e \<Rightarrow> e \<in> set (searched root) \<and> selected M selector e)"
proof (induction "size root" arbitrary: root rule: less_induct)
  case less
  let ?first = "native_querySelector M selector root"
  let ?all = "native_querySelectorAll M star root"
  let ?part = "\<lambda>el. case shadowRoot el of
      None \<Rightarrow> Inr None | Some sr \<Rightarrow> querySelectorShadow M selector sr"
  have first: "(case kind root of
              Document \<Rightarrow> Document_querySelector M selector root
            | Element \<Rightarrow> Element_querySelector M selector root
            | ShadowRoot \<Rightarrow> Inr (native_querySelector M selector root)) = Inr ?first"
    using less.prems
    by (cases "kind root") (simp_all add: originalQuerySelector_def originalDocQuerySelector_def)
  have all: "call_querySelectorAll M star root = Inr ?all"
    by (rule call_querySelectorAll_star)
  show ?case
  proof (cases ?first)
    case (Some e)
    then have "e \<in> set (descendants root)" "selected M selector e"
      unfolding native_querySelector_def selected_def
      by (auto simp: find_Some_iff)
    then have "e \<in> set (searched root) \<and> selected M selector e"
      by (simp add: set_searched [of root])
    moreover have "querySelectorShadow M selector root = Inr (Some e)"
      by (simp add: querySelectorShadow.simps [of M selector root] first Some)
    ultimately show ?thesis by simp
  next
    case None
    then have light: "\<forall>e \<in> set (descendants root). \<not> selected M selector e"
      unfolding native_querySelector_def selected_def
      by (auto simp: find_None_iff)
    have parts: "\<forall>el \<in> set ?all. \<exists>r. ?part el = Inr r
      \<and> (case r of None \<Rightarrow> \<forall>e \<in> hosted el. \<not> selected M selector e
                   | Some e \<Rightarrow> e \<in> hosted el \<and> selected M selector e)"
    proof
      fix el
      assume el: "el \<in> set ?all"
      show "\<exists>r. ?part el = Inr r
        \<and> (case r of None \<Rightarrow> \<forall>e \<in> hosted el. \<not> selected M selector e
                   | Some e \<Rightarrow> e \<in> hosted el \<and> selected M selector e)"
      proof (cases "shadowRoot el")
        case None
        then show ?thesis by (simp add: hosted_def)
      next
        case (Some sr)
        have "size sr < size root"
          using all el Some by (rule size_allElements)
        have h: "hosted el = set (searched sr)"
          using Some by (simp add: hosted_def)
        from less.hyps [OF \<open>size sr < size root\<close> less.prems] Some show ?thesis
          unfolding h by simp
      qed
    qed
    from first_found_map [OF parts] obtain r where r: "first_found (map ?part ?all) = Inr r"
      and r_spec: "case r of None \<Rightarrow> \<forall>el \<in> set ?all. \<forall>e \<in> hosted el. \<not> selected M selector e
                   | Some e \<Rightarrow> (\<exists>el \<in> set ?all. e \<in> hosted el) \<and> selected M selector e"
      by blast
    have "querySelectorShadow M selector root = Inr r"
      by (simp add: querySelectorShadow.simps [of M selector root] first None all r)
    moreover have "case r of
           None \<Rightarrow> \<forall>e \<in> set (searched root). \<not> selected M selector e
         | Some e \<Rightarrow> e \<in> set (searched root) \<and> selected M selector e"
      using r_spec light unfolding set_searched [of root] native_star
      by (cases r) auto
    ultimately show ?thesis by blast
  qed
qed

text \<open>
  C1. The claim: an element that matches and is reachable from the root through shadow
  roots is found by \<^verbatim>\<open>querySelectorShadow\<close> and by both variants of \<^verbatim>\<open>findAll\<close>.
  The code: the recursive functions enter the shadow roots of the descendants of the root
  only, never the shadow root of the root itself. Started on a node without children they
  find nothing, whatever its shadow root holds; the queue variant does find it.
\<close>

theorem recursive_variants_ignore_root_shadow:
  "\<not> needsShadowSearch selector \<Longrightarrow>
   querySelectorShadow M selector (Node k i sr []) = Inr None \<and>
   querySelectorAllShadow M selector (Node k i sr []) = Inr []"
proof
  assume plain: "\<not> needsShadowSearch selector"
  have none: "native_querySelector M selector (Node k i sr []) = None"
    by (simp add: native_querySelector_def)
  have first: "(case k of
              Document \<Rightarrow> Document_querySelector M selector (Node k i sr [])
            | Element \<Rightarrow> Element_querySelector M selector (Node k i sr [])
            | ShadowRoot \<Rightarrow> Inr (native_querySelector M selector (Node k i sr []))) = Inr None"
    using plain none
    by (cases k) (simp_all add: originalQuerySelector_def originalDocQuerySelector_def)
  have all: "call_querySelectorAll M star (Node k i sr []) = Inr []"
    by (simp add: call_querySelectorAll_star native_querySelectorAll_def)
  show "querySelectorShadow M selector (Node k i sr []) = Inr None"
    by (simp add: querySelectorShadow.simps [of M selector "Node k i sr []"] first all)
  have found: "call_querySelectorAll M selector (Node k i sr []) = Inr []"
    using plain by (simp add: call_querySelectorAll_plain native_querySelectorAll_def)
  show "querySelectorAllShadow M selector (Node k i sr []) = Inr []"
    by (simp add: querySelectorAllShadow.simps [of M selector "Node k i sr []"] found all)
qed

lemma go_plain: "\<not> needsShadowSearch (js ''.go'')"
  by (simp add: needsShadowSearch_def js_def shadow_marker_def deep_marker_def starts_with_def)

theorem recursive_variants_ignore_root_shadow_witness:
  "\<not> needsShadowSearch (js ''.go'') \<and>
   querySelectorShadow (\<lambda>s i. s = js ''.go'' \<and> i = 3) (js ''.go'')
     (Node Element 1 (Some (Node ShadowRoot 2 None [Node Element 3 None []])) []) = Inr None \<and>
   querySelectorAllShadow (\<lambda>s i. s = js ''.go'' \<and> i = 3) (js ''.go'')
     (Node Element 1 (Some (Node ShadowRoot 2 None [Node Element 3 None []])) []) = Inr [] \<and>
   querySelectorAllShadowOptimized (\<lambda>s i. s = js ''.go'' \<and> i = 3) (js ''.go'')
     (Node Element 1 (Some (Node ShadowRoot 2 None [Node Element 3 None []])) [])
     = Inr [Node Element 3 None []]"
  using recursive_variants_ignore_root_shadow
    [OF go_plain, of "\<lambda>s i. s = js ''.go'' \<and> i = 3" Element 1
      "Some (Node ShadowRoot 2 None [Node Element 3 None []])"]
  by (simp add: go_plain querySelectorAllShadowOptimized_def call_matches_def has_matches_def
      native_matches_def)

section \<open>Properties of the marker-gated overrides\<close>




lemma clean_usage:
  "cleanSelector (js '':shadow .some-class, :shadow .another-class'')
     = js ''.some-class, .another-class''"
  by (simp add: cleanSelector_def js_def shadow_marker_def deep_marker_def starts_with_def
      trim_def is_space_def)

text \<open>
  What the replaced methods of an element or a document do: for a selector that holds
  \<^verbatim>\<open>:shadow\<close> or \<^verbatim>\<open>>>>\<close> they run \<^verbatim>\<open>querySelectorShadow\<close> and
  \<^verbatim>\<open>querySelectorAllShadowOptimized\<close>, rooted at the receiver, on the strictly shorter
  \<^verbatim>\<open>cleanSelector(selector)\<close>; for a selector that holds neither they return what
  the native method returns.
\<close>

lemma marker_gate_dispatch:
  "needsShadowSearch marked \<Longrightarrow> \<not> needsShadowSearch plain \<Longrightarrow>
   Element_querySelector M marked this = querySelectorShadow M (cleanSelector marked) this \<and>
   Document_querySelector M marked this = querySelectorShadow M (cleanSelector marked) this \<and>
   Element_querySelectorAll M marked this
     = querySelectorAllShadowOptimized M (cleanSelector marked) this \<and>
   Document_querySelectorAll M marked this
     = querySelectorAllShadowOptimized M (cleanSelector marked) this \<and>
   length (cleanSelector marked) < length marked \<and>
   Element_querySelector M plain this = Inr (native_querySelector M plain this) \<and>
   Document_querySelector M plain this = Inr (native_querySelector M plain this) \<and>
   Element_querySelectorAll M plain this = Inr (native_querySelectorAll M plain this) \<and>
   Document_querySelectorAll M plain this = Inr (native_querySelectorAll M plain this)"
  by (simp add: Element_querySelectorAll_def Document_querySelectorAll_def
      originalQuerySelector_def originalDocQuerySelector_def originalQuerySelectorAll_def
      originalDocQuerySelectorAll_def length_cleanSelector_less)


section \<open>Properties of the prototype variant\<close>

lemma proto_overflow:
  "kind root \<noteq> ShadowRoot \<Longrightarrow>
   proto_querySelectorShadow M depth selector root = Inl RangeError
   \<and> proto_querySelector M depth selector root = Inl RangeError"
proof (induction depth)
  case 0
  then show ?case by simp
next
  case (Suc depth)
  then have "proto_querySelector M depth selector root = Inl RangeError" by simp
  then have "proto_querySelectorShadow M (Suc depth) selector root = Inl RangeError"
    using Suc.prems by (cases "kind root") simp_all
  moreover have "proto_querySelector M (Suc depth) selector root = Inl RangeError"
    using Suc by simp
  ultimately show ?case by simp
qed

text \<open>
  C2. The claim: after the unconditional overrides are installed, \<^verbatim>\<open>querySelector\<close> on a
  document or an element runs to completion and returns. The code: the replaced
  \<^verbatim>\<open>querySelector\<close> calls \<^verbatim>\<open>querySelectorShadow\<close>, whose first statement calls the
  replaced \<^verbatim>\<open>querySelector\<close> of the same receiver again. Whatever room the stack has,
  the call ends in \<^verbatim>\<open>RangeError\<close>, for every document, element and selector.
\<close>

theorem implicit_querySelector_overflows:
  "proto_querySelector M depth selector (Node Document i sr cs) = Inl RangeError \<and>
   proto_querySelector M depth selector (Node Element i sr cs) = Inl RangeError"
  by (simp add: proto_overflow)

text \<open>
  The replaced \<^verbatim>\<open>querySelectorAll\<close> does return: with room for its own frame and the one
  of \<^verbatim>\<open>querySelectorAllShadowOptimized\<close>, it is the queue variant.
\<close>

lemma implicit_querySelectorAll_returns:
  "proto_querySelectorAll M (Suc (Suc depth)) selector this
     = querySelectorAllShadowOptimized M selector this"
  by (simp add: proto_querySelectorAll_def proto_querySelectorAllShadowOptimized_def)

text \<open>
  C6. The claim: every matching node appears exactly once in the result of \<^verbatim>\<open>findAll\<close>,
  also after the overrides are installed. The code: in the prototype variant
  \<^verbatim>\<open>querySelectorAllShadow\<close> called on a document gets from the replaced
  \<^verbatim>\<open>querySelectorAll\<close> the matches of the whole composed tree and every element of it,
  and then adds the matches of each shadow root once more: a button (3) in the shadow root
  (2) of a host (1) is reported twice.
\<close>

theorem implicit_querySelectorAllShadow_duplicates:
  "proto_querySelectorAllShadow (\<lambda>s i. s = js ''.go'' \<and> i = 3) (Suc (Suc (Suc depth))) (js ''.go'')
     (Node Document 0 None
        [Node Element 1 (Some (Node ShadowRoot 2 None [Node Element 3 None []])) []])
   = Inr [Node Element 3 None [], Node Element 3 None []]"
  by (simp add: proto_call_querySelectorAll_def proto_querySelectorAll_def
      proto_querySelectorAllShadowOptimized_def querySelectorAllShadowOptimized_def
      native_querySelectorAll_def call_matches_def has_matches_def native_matches_def
      js_def star_def)

text \<open>
  On the same document the function of \<^verbatim>\<open>querySelectorShadow.js\<close>, whose
  \<^verbatim>\<open>root.querySelectorAll\<close> is the native one for a selector without a marker, reports
  the button once.
\<close>

lemma querySelectorAllShadow_example:
  "querySelectorAllShadow (\<lambda>s i. s = js ''.go'' \<and> i = 3) (js ''.go'')
     (Node Document 0 None
        [Node Element 1 (Some (Node ShadowRoot 2 None [Node Element 3 None []])) []])
   = Inr [Node Element 3 None []]"
proof -
  let ?M = "\<lambda>s i. s = js ''.go'' \<and> i = (3::nat)"
  let ?button = "Node Element 3 None []"
  let ?shadow = "Node ShadowRoot 2 None [?button]"
  let ?doc = "Node Document 0 None [Node Element 1 (Some ?shadow) []]"
  have not_star: "js ''.go'' \<noteq> star"
    by (simp add: js_def star_def)
  have inner: "querySelectorAllShadow ?M (js ''.go'') ?shadow = Inr [?button]"
    unfolding querySelectorAllShadow.simps [of ?M "js ''.go''" ?shadow]
    by (simp add: call_querySelectorAll_def native_querySelectorAll_def has_matches_def
        native_matches_def)
  show ?thesis
    unfolding querySelectorAllShadow.simps [of ?M "js ''.go''" ?doc]
    by (simp add: inner go_plain not_star call_querySelectorAll_plain call_querySelectorAll_star
        native_querySelectorAll_def has_matches_def native_matches_def)
qed

section \<open>Properties of \<^verbatim>\<open>closestShadow\<close>\<close>

lemma closestShadow_top:
  "parentElement element = None \<Longrightarrow>
   \<not> (up_has_matches element \<and> native_matches M selector (up_id element)) \<Longrightarrow>
   closestShadow M (Some element) selector = Inl TypeError"
  by (simp add: call_getRootNode_def)

text \<open>
  C10. \<^verbatim>\<open>closestShadow\<close> is inclusive of its starting element: an element that itself
  matches the selector is returned, whatever its parent, its root node and its host are.
\<close>

theorem closestShadow_inclusive:
  "up_kind element = Element \<Longrightarrow> native_matches M selector (up_id element) \<Longrightarrow>
   closestShadow M (Some element) selector = Inr (Some element)"
  by (simp add: up_has_matches_def)

theorem closestShadow_inclusive_witness:
  "up_kind (UpNode Element 2 (Some (UpNode Element 1 None None)) None) = Element \<and>
   native_matches (\<lambda>s i. True) (js ''.card'') (up_id (UpNode Element 2 (Some (UpNode Element 1 None None)) None)) \<and>
   closestShadow (\<lambda>s i. True) (Some (UpNode Element 2 (Some (UpNode Element 1 None None)) None)) (js ''.card'')
     = Inr (Some (UpNode Element 2 (Some (UpNode Element 1 None None)) None))"
  using closestShadow_inclusive
    [of "UpNode Element 2 (Some (UpNode Element 1 None None)) None" "\<lambda>s i. True" "js ''.card''"]
  by (simp add: native_matches_def)

text \<open>
  C3. The claim: when the parent chain inside a shadow root is exhausted, the walk goes on
  from the shadow root's host. The code: an element that does not match and whose parent
  is the shadow root itself (so that \<^verbatim>\<open>parentElement\<close> is \<^verbatim>\<open>null\<close>) makes the call
  throw \<^verbatim>\<open>TypeError\<close>, whatever the host and its ancestors match.
\<close>

theorem closestShadow_no_upward_crossing:
  "up_kind element = Element \<Longrightarrow> \<not> native_matches M selector (up_id element) \<Longrightarrow>
   up_parent element = Some sr \<Longrightarrow> up_kind sr = ShadowRoot \<Longrightarrow>
   closestShadow M (Some element) selector = Inl TypeError"
  by (rule closestShadow_top) (simp_all add: parentElement_def)

text \<open>
  The scenario of the claim: \<^verbatim>\<open><section class="wrap">\<close> (1) holds the host
  \<^verbatim>\<open><x-widget>\<close> (2), whose shadow root (3) holds a \<^verbatim>\<open><button>\<close> (4); only the
  section matches \<^verbatim>\<open>.wrap\<close>.
\<close>

theorem closestShadow_no_upward_crossing_witness:
  "up_kind (UpNode Element 4 (Some (UpNode ShadowRoot 3 None
      (Some (UpNode Element 2 (Some (UpNode Element 1 None None)) None)))) None) = Element \<and>
   \<not> native_matches (\<lambda>s i. s = js ''.wrap'' \<and> i = 1) (js ''.wrap'') 4 \<and>
   up_kind (UpNode ShadowRoot 3 None
      (Some (UpNode Element 2 (Some (UpNode Element 1 None None)) None))) = ShadowRoot \<and>
   native_matches (\<lambda>s i. s = js ''.wrap'' \<and> i = 1) (js ''.wrap'') 1 \<and>
   closestShadow (\<lambda>s i. s = js ''.wrap'' \<and> i = 1)
     (Some (UpNode Element 4 (Some (UpNode ShadowRoot 3 None
        (Some (UpNode Element 2 (Some (UpNode Element 1 None None)) None)))) None))
     (js ''.wrap'') = Inl TypeError"
  using closestShadow_no_upward_crossing
    [of "UpNode Element 4 (Some (UpNode ShadowRoot 3 None
        (Some (UpNode Element 2 (Some (UpNode Element 1 None None)) None)))) None"
      "\<lambda>s i. s = js ''.wrap'' \<and> i = 1" "js ''.wrap''"
      "UpNode ShadowRoot 3 None (Some (UpNode Element 2 (Some (UpNode Element 1 None None)) None))"]
  by (simp add: native_matches_def js_def star_def)

text \<open>
  C4. The claim: when nothing on the walk matches, \<^verbatim>\<open>closestShadow\<close> returns
  \<^verbatim>\<open>null\<close>. The code: called on a node, it never returns \<^verbatim>\<open>null\<close>; a lone
  \<^verbatim>\<open><div>\<close> that does not match makes it throw \<^verbatim>\<open>TypeError\<close>.
\<close>

theorem closestShadow_never_null:
  "closestShadow M (Some element) selector \<noteq> Inr None \<and>
   closestShadow (\<lambda>s i. False) (Some (UpNode Element 1 None None)) (js ''.missing'') = Inl TypeError"
proof
  show "closestShadow M (Some element) selector \<noteq> Inr None"
  proof (induction element rule: measure_induct_rule [where f = size])
    case (less element)
    show ?case
    proof (cases "up_has_matches element \<and> native_matches M selector (up_id element)")
      case True
      then show ?thesis by simp
    next
      case False
      show ?thesis
      proof (cases "parentElement element")
        case None
        then have "closestShadow M (Some element) selector = Inl TypeError"
          using False by (rule closestShadow_top)
        then show ?thesis by (simp only: sum.distinct not_False_eq_True)
      next
        case (Some p)
        then have "size p < size element"
          by (cases element) (auto simp: parentElement_def split: option.splits if_splits)
        with less have "closestShadow M (Some p) selector \<noteq> Inr None" by blast
        with False Some show ?thesis by simp
      qed
    qed
  qed
next
  show "closestShadow (\<lambda>s i. False) (Some (UpNode Element 1 None None)) (js ''.missing'') = Inl TypeError"
    by (rule closestShadow_top) (simp_all add: parentElement_def native_matches_def js_def star_def)
qed

end
